theory Spec2Isabelle
  imports Complex_Main "HOL-Library.Product_Lexorder"
begin

section \<open>The curve tree of appleseed\<close>

text \<open>
  The development embeds the implementation of \<^verbatim>\<open>curvetree.h\<close> (the second part of
  \<^verbatim>\<open>src/appleseed/renderer/kernel/lighting/subsurfacesampler.h\<close>): \<^verbatim>\<open>collect_curves\<close>,
  \<^verbatim>\<open>CurveTree::CurveTree\<close>, \<^verbatim>\<open>CurveTree::build_bvh\<close> and \<^verbatim>\<open>CurveTreeFactory::create\<close>.
  Indices and counts (\<^verbatim>\<open>size_t\<close>) are natural numbers: they index vectors held in
  memory and are only incremented below a vector's size, so they never wrap.
  \<^verbatim>\<open>GScalar\<close> and \<^verbatim>\<open>double\<close> values are exact rationals; rounding is outside this
  embedding.
\<close>

subsection \<open>Data\<close>

type_synonym scalar = rat

type_synonym vec3 = "scalar \<times> scalar \<times> scalar"

text \<open>
  Modelled from the spec: the type \<^verbatim>\<open>GAABB3\<close> is only named in the source. Section 3:
  a bounding box is an ``axis-aligned min/max corner in 3D''.
\<close>

record aabb =
  aabb_min :: vec3
  aabb_max :: vec3

text \<open>
  A curve key, built in the source as \<^verbatim>\<open>CurveKey(i, j, 0)\<close> from the ``object instance
  index'', the ``curve index'' and the material (``for now we assume all the curves
  have the same material'').
\<close>

datatype CurveKey =
  CurveKey (object_instance_index: nat) (curve_index: nat) (material_index: nat)

text \<open>
  Modelled from the spec: the node type of the tree is declared in a header the source
  only includes. Section 3: a node is a ``tagged variant \<open>{\<close>Interior: two child
  references + combined bounding box, Leaf: primitive index range + bounding box\<open>}\<close>'',
  and the nodes form a tree ``rooted at index 0''. A child reference is an index into
  the node array, a leaf holds the range \<open>[begin, end)\<close>, and \<open>None\<close> is the box of no
  item at all.
\<close>

datatype node =
  Interior nat nat "aabb option"
| Leaf nat nat "aabb option"

text \<open>
  An object of the scene: its model tag, and the curves a curve object holds
  (\<^verbatim>\<open>get_curve_count()\<close> is the length of \<open>get_curves\<close>, \<^verbatim>\<open>get_curve(j)\<close> its \<open>j\<close>-th
  entry). The source reaches the curves through an unchecked \<^verbatim>\<open>static_cast\<close> once the
  model tag has matched, which is the field access here.
\<close>

record 'c Object =
  get_model :: string
  get_curves :: "'c list"

record ('c, 'm) ObjectInstance =
  get_object :: "'c Object"
  get_transform :: 'm

text \<open>
  The parameters of an assembly are a dictionary of strings with named children;
  \<open>get_parameters a name\<close> is \<^verbatim>\<open>a.get_parameters().child(name)\<close>.
\<close>

type_synonym ParamArray = "string \<rightharpoonup> string"

record ('c, 'm) Assembly =
  get_name :: string
  get_parameters :: "string \<Rightarrow> ParamArray"
  object_instances :: "('c, 'm) ObjectInstance list"

record ('c, 'm) Arguments =
  m_curve_tree_uid :: nat
  m_assembly :: "('c, 'm) Assembly"

record 'c3 CurveTree =
  m_nodes :: "node list"
  m_curves3 :: "'c3 list"
  m_curve_keys :: "CurveKey list"

datatype error =
  ExceptionNotImplemented
| ExceptionInvalidChoice
| UndefinedBehavior

text \<open>
  What the source takes from headers it only includes, as parameters: the constructor \<^verbatim>\<open>BezierCurve3d(curve, transform)\<close> and its
  \<^verbatim>\<open>get_bbox()\<close>, the model tag \<^verbatim>\<open>CurveObjectFactory::get_model()\<close>, the three
  \<^verbatim>\<open>CurveTreeDefault...\<close> constants, the two reads of the parameter store, and
  \<open>bvh_build\<close>: the run of \<^verbatim>\<open>bvh::Builder::build\<close> over a fresh
  \<^verbatim>\<open>bvh::SAHPartitioner\<close>. \<open>get_optional params name default_value allowed_values\<close> is
  \<^verbatim>\<open>ParamArray::get_optional<string>\<close> with its list of allowed values, which returns a
  string or leaves with an exception; \<open>get_optional_double params name default_value\<close>
  is \<^verbatim>\<open>ParamArray::get_optional<double>\<close>. \<open>bvh_build bboxes max_leaf_size
  traversal_cost intersection_cost size min_leaf_size\<close> takes the partitioner's four
  constructor arguments and the builder's two, and returns the node array together
  with the partitioner's item ordering after the build.
\<close>

record ('c, 'm, 'c3) env =
  BezierCurve3d :: "'c \<Rightarrow> 'm \<Rightarrow> 'c3"
  get_bbox :: "'c3 \<Rightarrow> aabb"
  CurveObjectFactory_get_model :: string
  CurveTreeDefaultMaxLeafSize :: nat
  CurveTreeDefaultInteriorNodeTraversalCost :: scalar
  CurveTreeDefaultCurveIntersectionCost :: scalar
  get_optional :: "ParamArray \<Rightarrow> string \<Rightarrow> string \<Rightarrow> string list \<Rightarrow> error + string"
  get_optional_double :: "ParamArray \<Rightarrow> string \<Rightarrow> scalar \<Rightarrow> scalar"
  bvh_build :: "aabb list \<Rightarrow> nat \<Rightarrow> scalar \<Rightarrow> scalar \<Rightarrow> nat \<Rightarrow> nat \<Rightarrow> node list \<times> nat list"

subsection \<open>\<^verbatim>\<open>collect_curves\<close>\<close>

text \<open>The inner loop over the curves of one curve object, \<open>j\<close> its counter.\<close>

function curve_loop ::
  "('c, 'm, 'c3) env \<Rightarrow> 'c Object \<Rightarrow> 'm \<Rightarrow> nat \<Rightarrow> nat \<Rightarrow>
   'c3 list \<times> CurveKey list \<Rightarrow> 'c3 list \<times> CurveKey list" where
  "curve_loop E curve_object transform i j (curves, curve_keys) =
     (if j < length (get_curves curve_object)
      then curve_loop E curve_object transform i (Suc j)
             (curves @ [BezierCurve3d E (get_curves curve_object ! j) transform],
              curve_keys @ [CurveKey i j 0])
      else (curves, curve_keys))"
  by pat_completeness auto
termination
  by (relation "measure (\<lambda>(E, ob, t, i, j, out). length (get_curves ob) - j)") auto

declare curve_loop.simps [simp del]

text \<open>The outer loop over the object instances of the assembly, \<open>i\<close> its counter.\<close>

function instance_loop ::
  "('c, 'm, 'c3) env \<Rightarrow> ('c, 'm) Arguments \<Rightarrow> nat \<Rightarrow>
   'c3 list \<times> CurveKey list \<Rightarrow> 'c3 list \<times> CurveKey list" where
  "instance_loop E arguments i out =
     (if i < length (object_instances (m_assembly arguments))
      then
        (let object_instance = object_instances (m_assembly arguments) ! i;
             object = get_object object_instance
         in if get_model object \<noteq> CurveObjectFactory_get_model E
            then instance_loop E arguments (Suc i) out
            else
              (let transform = get_transform object_instance
               in instance_loop E arguments (Suc i)
                    (curve_loop E object transform i 0 out)))
      else out)"
  by pat_completeness auto
termination
  by (relation "measure (\<lambda>(E, a, i, out). length (object_instances (m_assembly a)) - i)") auto

declare instance_loop.simps [simp del]

definition collect_curves ::
  "('c, 'm, 'c3) env \<Rightarrow> ('c, 'm) Arguments \<Rightarrow>
   'c3 list \<times> CurveKey list \<Rightarrow> 'c3 list \<times> CurveKey list" where
  "collect_curves E arguments out = instance_loop E arguments 0 out"

text \<open>What one object instance contributes, written without loops.\<close>

definition instance_curves ::
  "('c, 'm, 'c3) env \<Rightarrow> ('c, 'm) ObjectInstance \<Rightarrow> 'c3 list" where
  "instance_curves E oi =
     (if get_model (get_object oi) = CurveObjectFactory_get_model E
      then map (\<lambda>c. BezierCurve3d E c (get_transform oi)) (get_curves (get_object oi))
      else [])"

definition instance_keys ::
  "('c, 'm, 'c3) env \<Rightarrow> nat \<Rightarrow> ('c, 'm) ObjectInstance \<Rightarrow> CurveKey list" where
  "instance_keys E i oi =
     (if get_model (get_object oi) = CurveObjectFactory_get_model E
      then map (\<lambda>j. CurveKey i j 0) [0..<length (get_curves (get_object oi))]
      else [])"

subsection \<open>Helpers of the foundation library\<close>

text \<open>
  Modelled from the spec: \<^verbatim>\<open>ParamArray::get_optional\<close> is only called in the source, and
  a parameter of the constructor below. Section 6 describes the parameter store as a
  ``key-value parameter store providing optional values with defaults and an
  enumerated-choice validator'', where ``the build fails with a configuration error if
  an unsupported value is supplied for a closed-choice option''. In this store a
  missing key gives the default, and a stored value outside the allowed values is the
  error \<open>ExceptionInvalidChoice\<close>. It is the store of the example scene.
\<close>

definition ParamArray_get_optional ::
  "ParamArray \<Rightarrow> string \<Rightarrow> string \<Rightarrow> string list \<Rightarrow> error + string" where
  "ParamArray_get_optional params name default_value allowed_values =
     (case params name of
        None \<Rightarrow> Inr default_value
      | Some v \<Rightarrow> if v \<in> set allowed_values then Inr v else Inl ExceptionInvalidChoice)"

text \<open>
  Modelled from the spec: the same store read at type \<^verbatim>\<open>double\<close> (``optional values with
  defaults'', ``time \<open>\<in>\<close> R''); \<open>conv\<close> converts the stored string.
\<close>

definition ParamArray_get_optional_double ::
  "(string \<Rightarrow> scalar) \<Rightarrow> ParamArray \<Rightarrow> string \<Rightarrow> scalar \<Rightarrow> scalar" where
  "ParamArray_get_optional_double conv params name default_value =
     (case params name of None \<Rightarrow> default_value | Some v \<Rightarrow> conv v)"

text \<open>
  Section 7 of the spec names one class of failure, ConfigurationError (``unsupported or
  unimplemented build algorithm selected''). Two exceptions fall into it: the one the
  constructor throws itself, and the one of the validator.
\<close>

definition is_ConfigurationError :: "error \<Rightarrow> bool" where
  "is_ConfigurationError e = (e = ExceptionNotImplemented \<or> e = ExceptionInvalidChoice)"

text \<open>
  Modelled from the spec: \<^verbatim>\<open>small_item_reorder(items, temp, order, count)\<close> is only called
  in the source. Sections 4.5 and 9: the reorderer rewrites an array ``so that
  array position matches final leaf-traversal order'', through ``freshly allocated
  storage'', with ``one permutation'' for both arrays: position \<open>i\<close> receives the item
  that stood at position \<open>order[i]\<close>, for \<open>i < count\<close>. \<open>temp_size\<close> is the size of the
  temporary array. An index outside an array is undefined behaviour in C++ and the
  error \<open>UndefinedBehavior\<close> here.
\<close>

definition small_item_reorder ::
  "'a list \<Rightarrow> nat \<Rightarrow> nat list \<Rightarrow> nat \<Rightarrow> error + 'a list" where
  "small_item_reorder items temp_size order count =
     (if count \<le> length order \<and> count \<le> length items \<and> count \<le> temp_size \<and>
         list_all (\<lambda>k. k < length items) (take count order)
      then Inr (map (\<lambda>i. items ! (order ! i)) [0..<count] @ drop count items)
      else Inl UndefinedBehavior)"

subsection \<open>\<^verbatim>\<open>CurveTree::build_bvh\<close>, \<^verbatim>\<open>CurveTree::CurveTree\<close> and the factory\<close>

text \<open>
  The members of the tree are passed in as \<open>this\<close> and returned updated, together with
  the exception that left the function, if any. The builder writes \<open>m_nodes\<close>. The
  statistics (the build time, the alignment of the node storage) are not part of the
  embedding. Note that \<open>time\<close> is received and never read.
\<close>

definition build_bvh ::
  "('c, 'm, 'c3) env \<Rightarrow> ('c, 'm) Arguments \<Rightarrow> ParamArray \<Rightarrow> scalar \<Rightarrow>
   'c3 CurveTree \<Rightarrow> 'c3 CurveTree \<times> error option" where
  "build_bvh E arguments params time this =
     (let (curves, curve_keys) =
            collect_curves E arguments (m_curves3 this, m_curve_keys this);
          curve_count = length curves;
          curve_bboxes = map (get_bbox E) curves;
          (nodes, order) =
            bvh_build E curve_bboxes
              (CurveTreeDefaultMaxLeafSize E)
              (CurveTreeDefaultInteriorNodeTraversalCost E)
              (CurveTreeDefaultCurveIntersectionCost E)
              (length curves)
              (CurveTreeDefaultMaxLeafSize E);
          this1 = this\<lparr>m_nodes := nodes, m_curves3 := curves, m_curve_keys := curve_keys\<rparr>
      in if curves \<noteq> []
         then
           (case small_item_reorder curves (length curves) order (length order) of
              Inl e \<Rightarrow> (this1, Some e)
            | Inr temp_curves \<Rightarrow>
                (case small_item_reorder curve_keys (length curve_keys) order (length order) of
                   Inl e \<Rightarrow> (this1\<lparr>m_curves3 := temp_curves\<rparr>, Some e)
                 | Inr temp_keys \<Rightarrow>
                     (this1\<lparr>m_curves3 := temp_curves, m_curve_keys := temp_keys\<rparr>, None)))
         else (this1, None))"

text \<open>
  The constructor. After the build it takes the address of \<^verbatim>\<open>m_nodes[0]\<close> for the
  statistics, which is undefined behaviour on an empty node array.
\<close>

definition CurveTree_CurveTree ::
  "('c, 'm, 'c3) env \<Rightarrow> ('c, 'm) Arguments \<Rightarrow> 'c3 CurveTree \<times> error option" where
  "CurveTree_CurveTree E arguments =
     (let this = \<lparr>m_nodes = [], m_curves3 = [], m_curve_keys = []\<rparr>;
          params = get_parameters (m_assembly arguments) ''acceleration_structure''
      in case get_optional E params ''algorithm'' ''bvh'' [''bvh'', ''sbvh''] of
           Inl e \<Rightarrow> (this, Some e)
         | Inr algorithm \<Rightarrow>
             (let time = get_optional_double E params ''time'' (1 / 2)
              in if algorithm = ''bvh''
                 then
                   (case build_bvh E arguments params time this of
                      (this', Some e) \<Rightarrow> (this', Some e)
                    | (this', None) \<Rightarrow>
                        if m_nodes this' = [] then (this', Some UndefinedBehavior)
                        else (this', None))
                 else (this, Some ExceptionNotImplemented)))"

definition CurveTreeFactory_create ::
  "('c, 'm, 'c3) env \<Rightarrow> ('c, 'm) Arguments \<Rightarrow> error + 'c3 CurveTree" where
  "CurveTreeFactory_create E m_arguments =
     (case CurveTree_CurveTree E m_arguments of
        (tree, None) \<Rightarrow> Inr tree
      | (tree, Some e) \<Rightarrow> Inl e)"

text \<open>
  The call of the builder in \<open>build_bvh\<close>, and the position an item stood at before
  \<open>small_item_reorder\<close> moved it to position \<open>p\<close>.
\<close>

abbreviation bvh_of :: "('c, 'm, 'c3) env \<Rightarrow> 'c3 list \<Rightarrow> node list \<times> nat list" where
  "bvh_of E curves \<equiv>
     bvh_build E (map (get_bbox E) curves)
       (CurveTreeDefaultMaxLeafSize E)
       (CurveTreeDefaultInteriorNodeTraversalCost E)
       (CurveTreeDefaultCurveIntersectionCost E)
       (length curves)
       (CurveTreeDefaultMaxLeafSize E)"

definition source_index :: "nat list \<Rightarrow> nat \<Rightarrow> nat" where
  "source_index order p = (if p < length order then order ! p else p)"

subsection \<open>Bounding boxes\<close>

text \<open>
  Modelled from the spec: the operations on bounding boxes are those of a class the
  source only names. Section 8: the union of two boxes has the ``min-corner
  componentwise min, max-corner componentwise max''.
\<close>

definition vmin :: "vec3 \<Rightarrow> vec3 \<Rightarrow> vec3" where
  "vmin a b = (case a of (ax, ay, az) \<Rightarrow> case b of (bx, by, bz) \<Rightarrow>
                 (min ax bx, min ay by, min az bz))"

definition vmax :: "vec3 \<Rightarrow> vec3 \<Rightarrow> vec3" where
  "vmax a b = (case a of (ax, ay, az) \<Rightarrow> case b of (bx, by, bz) \<Rightarrow>
                 (max ax bx, max ay by, max az bz))"

definition aabb_union :: "aabb \<Rightarrow> aabb \<Rightarrow> aabb" where
  "aabb_union a b =
     \<lparr>aabb_min = vmin (aabb_min a) (aabb_min b), aabb_max = vmax (aabb_max a) (aabb_max b)\<rparr>"

text \<open>Modelled from the spec: the union with the box of no item is the other box.\<close>

fun bbox_union :: "aabb option \<Rightarrow> aabb option \<Rightarrow> aabb option" where
  "bbox_union None y = y"
| "bbox_union (Some a) None = Some a"
| "bbox_union (Some a) (Some b) = Some (aabb_union a b)"

text \<open>
  Modelled from the spec: the coordinate of a point along axis 0, 1 or 2, the extent of
  a box along an axis, half the surface area of a box (the ``surface-area heuristic''
  of section 4.3 only compares areas), and the ``dominant spatial axis'' of a box, its
  axis of greatest extent (the lowest one on a tie).
\<close>

definition coord :: "nat \<Rightarrow> vec3 \<Rightarrow> scalar" where
  "coord d v = (case v of (x, y, z) \<Rightarrow> if d = 0 then x else if d = 1 then y else z)"

definition extent :: "aabb \<Rightarrow> nat \<Rightarrow> scalar" where
  "extent b d = coord d (aabb_max b) - coord d (aabb_min b)"

definition half_surface_area :: "aabb option \<Rightarrow> scalar" where
  "half_surface_area bbox =
     (case bbox of
        None \<Rightarrow> 0
      | Some b \<Rightarrow> extent b 0 * extent b 1 + extent b 1 * extent b 2 + extent b 2 * extent b 0)"

definition dominant_axis :: "aabb option \<Rightarrow> nat" where
  "dominant_axis bbox =
     (case bbox of
        None \<Rightarrow> 0
      | Some b \<Rightarrow>
          if extent b 0 \<ge> extent b 1 \<and> extent b 0 \<ge> extent b 2 then 0
          else if extent b 1 \<ge> extent b 2 then 1 else 2)"

subsection \<open>The SAH partitioner\<close>

text \<open>
  Modelled from the spec: \<^verbatim>\<open>bvh::SAHPartitioner\<close> is only constructed and queried in the
  source. Section 4.3: it is given ``the full set of primitive bounding boxes and three
  cost constants (max leaf size, interior-node traversal cost, primitive-intersection
  cost)''. A range of the master permutation is the list of the item indices it holds,
  in their current order.
\<close>

record SAHPartitioner =
  m_bboxes :: "aabb list"
  m_max_leaf_size :: nat
  m_interior_node_traversal_cost :: scalar
  m_item_intersection_cost :: scalar

text \<open>
  Modelled from the spec: section 4.3 (a), ``compute the bounding box of an arbitrary
  contiguous index range''.
\<close>

definition compute_bbox :: "aabb list \<Rightarrow> nat list \<Rightarrow> aabb option" where
  "compute_bbox bboxes items = fold (\<lambda>i acc. bbox_union acc (Some (bboxes ! i))) items None"

text \<open>
  Modelled from the spec: section 4.3 (b), the cost of a split is ``cost \<open>\<approx>\<close>
  traversal_cost + probability-weighted sum of child intersection costs''; the
  probability of a child is the ratio of its surface area to its parent's, the
  intersection cost of a child the intersection cost times its number of items.
  Section 4.3 (c), ``leaf cost = intersection_cost \<open>\<times>\<close> range size''.
\<close>

definition split_cost ::
  "SAHPartitioner \<Rightarrow> aabb option \<Rightarrow> nat list \<Rightarrow> nat list \<Rightarrow> scalar" where
  "split_cost P bbox left right =
     m_interior_node_traversal_cost P
     + half_surface_area (compute_bbox (m_bboxes P) left) / half_surface_area bbox
         * of_nat (length left) * m_item_intersection_cost P
     + half_surface_area (compute_bbox (m_bboxes P) right) / half_surface_area bbox
         * of_nat (length right) * m_item_intersection_cost P"

definition leaf_cost :: "SAHPartitioner \<Rightarrow> nat \<Rightarrow> scalar" where
  "leaf_cost P n = m_item_intersection_cost P * of_nat n"

text \<open>
  Modelled from the spec: section 4.3 (b), a split is found ``by testing candidate
  split positions along the dominant spatial axis'', and ``tie-breaks must be
  deterministic, e.g., lowest axis index then lowest primitive index''. The items of
  the range are sorted along the axis by the centre of their box (twice the centre,
  to be exact), then by their index; the candidates are all positions \<open>k\<close> that leave
  both sides non-empty, each with the cost of splitting the sorted range into its
  first \<open>k\<close> items and the rest; of the candidates of least cost the first one is taken.
\<close>

definition sort_along :: "SAHPartitioner \<Rightarrow> nat \<Rightarrow> nat list \<Rightarrow> nat list" where
  "sort_along P axis items =
     sort_key (\<lambda>i. (coord axis (aabb_min (m_bboxes P ! i))
                    + coord axis (aabb_max (m_bboxes P ! i)), i)) items"

definition candidates :: "SAHPartitioner \<Rightarrow> aabb option \<Rightarrow> nat list \<Rightarrow> (scalar \<times> nat) list" where
  "candidates P bbox sorted_items =
     map (\<lambda>k. (split_cost P bbox (take k sorted_items) (drop k sorted_items), k))
       [1..<length sorted_items]"

fun least_cost :: "(scalar \<times> nat) list \<Rightarrow> (scalar \<times> nat) option" where
  "least_cost [] = None"
| "least_cost (c # cs) =
     (case least_cost cs of
        None \<Rightarrow> Some c
      | Some d \<Rightarrow> if fst d < fst c then Some d else Some c)"

text \<open>
  Modelled from the spec: section 4.3 (b) and (c), ``propose a split of a given index
  range into two sub-ranges minimizing estimated traversal cost'' and ``report whether
  terminating as a leaf is cheaper than any candidate split (decided by comparing split
  cost to leaf cost)''. \<open>partition P items bbox\<close> is \<open>None\<close> where the leaf is preferred:
  there is no candidate split, or the leaf costs less than the cheapest candidate.
  Otherwise it is the two sub-ranges, which replace the range in the master
  permutation. \<open>leaf_cheaper\<close> is the comparison by itself: the leaf costs less than
  every candidate split of the range.
\<close>

definition partition ::
  "SAHPartitioner \<Rightarrow> nat list \<Rightarrow> aabb option \<Rightarrow> (nat list \<times> nat list) option" where
  "partition P items bbox =
     (let sorted_items = sort_along P (dominant_axis bbox) items
      in case least_cost (candidates P bbox sorted_items) of
           None \<Rightarrow> None
         | Some (cost, pivot) \<Rightarrow>
             if leaf_cost P (length items) < cost
             then None
             else Some (take pivot sorted_items, drop pivot sorted_items))"


text \<open>A proposed split has two non-empty sides, on which the builder's recursion rests.\<close>

lemma least_cost_mem: "least_cost cs = Some c \<Longrightarrow> c \<in> set cs"
  by (induction cs arbitrary: c) (auto split: option.splits if_splits)

lemma partition_pivot:
  assumes "partition P items bbox = Some (left, right)"
  obtains pivot where "0 < pivot" "pivot < length items"
    "left = take pivot (sort_along P (dominant_axis bbox) items)"
    "right = drop pivot (sort_along P (dominant_axis bbox) items)"
proof -
  let ?s = "sort_along P (dominant_axis bbox) items"
  from assms obtain cost pivot where
    lc: "least_cost (candidates P bbox ?s) = Some (cost, pivot)"
    and lr: "left = take pivot ?s" "right = drop pivot ?s"
    by (auto simp: partition_def Let_def split: if_splits option.splits)
  from least_cost_mem [OF lc] have "pivot \<in> set [1..<length ?s]"
    by (auto simp: candidates_def)
  then have "0 < pivot" "pivot < length items"
    by (simp_all add: sort_along_def)
  then show ?thesis using lr by (rule that)
qed

lemma partition_lengths:
  assumes "partition P items bbox = Some (left, right)"
  shows "length left < length items" and "length right < length items"
    and "length left + length right = length items"
    and "left \<noteq> []" and "right \<noteq> []"
proof -
  from assms obtain pivot where p: "0 < pivot" "pivot < length items"
    "left = take pivot (sort_along P (dominant_axis bbox) items)"
    "right = drop pivot (sort_along P (dominant_axis bbox) items)"
    by (rule partition_pivot)
  have len: "length (sort_along P (dominant_axis bbox) items) = length items"
    by (simp add: sort_along_def)
  show "length left < length items" "length right < length items"
    "length left + length right = length items" "left \<noteq> []" "right \<noteq> []"
    using p len by auto
qed

subsection \<open>The tree builder\<close>

text \<open>
  Modelled from the spec: \<^verbatim>\<open>bvh::Builder\<close> is only called in the source.
  Section 4.4: it ``consumes the Partitioner to recursively build the node hierarchy
  top-down''; a recursion frame evaluates its range and either emits a leaf ``with
  current range'' or splits it ``into two ranges'', recurses ``into each'' and emits an
  interior node ``with two child references and combined bounding box''; it
  ``terminates when partitioner signals leaf-preferred or range size \<open>\<le>\<close> max leaf
  size''. Section 3: the nodes form a tree ``rooted at index 0''.

  \<open>subdivide_recurse\<close> returns the nodes of the subtree over \<open>items\<close>, whose root is to
  stand at \<open>node_index\<close>, and the items in their final order. \<open>begin\<close> is the position of
  the range in the master permutation and \<open>bbox\<close> the box of the range, computed by the
  caller through the partitioner. The spec does not fix where the children stand in
  the node array; here a node is followed by its left subtree, then its right one.
\<close>

function subdivide_recurse ::
  "SAHPartitioner \<Rightarrow> nat \<Rightarrow> nat \<Rightarrow> nat \<Rightarrow> nat list \<Rightarrow> aabb option \<Rightarrow>
   node list \<times> nat list" where
  "subdivide_recurse P max_leaf_size node_index begin items bbox =
     (case (if length items \<le> max_leaf_size then None else partition P items bbox) of
        None \<Rightarrow> ([Leaf begin (begin + length items) bbox], items)
      | Some (left, right) \<Rightarrow>
          (let left_bbox = compute_bbox (m_bboxes P) left;
               right_bbox = compute_bbox (m_bboxes P) right;
               left_index = node_index + 1;
               (left_nodes, left_items) =
                  subdivide_recurse P max_leaf_size left_index begin left left_bbox;
               right_index = left_index + length left_nodes;
               (right_nodes, right_items) =
                  subdivide_recurse P max_leaf_size right_index (begin + length left)
                    right right_bbox
           in (Interior left_index right_index bbox # left_nodes @ right_nodes,
               left_items @ right_items)))"
  by pat_completeness auto
termination
  by (relation "measure (\<lambda>(P, m, ni, b, items, bb). length items)")
     (auto split: if_splits dest: partition_lengths(1,2))

declare subdivide_recurse.simps [simp del]

text \<open>
  Modelled from the spec: \<^verbatim>\<open>Builder::build\<close> over a fresh partitioner, whose item
  ordering starts as the identity (section 4.3: the partitioner ``maintains the master
  permutation of primitive indices as a side effect of repeated partitioning''). The
  arguments are those of \<open>bvh_build\<close>; the root stands at index 0 and its range is
  the whole of \<open>[0, item_count)\<close>.
\<close>

definition Builder_build ::
  "aabb list \<Rightarrow> nat \<Rightarrow> scalar \<Rightarrow> scalar \<Rightarrow> nat \<Rightarrow> nat \<Rightarrow> node list \<times> nat list" where
  "Builder_build bboxes partitioner_max_leaf_size traversal_cost intersection_cost
       item_count max_leaf_size =
     (let partitioner =
            \<lparr>m_bboxes = bboxes, m_max_leaf_size = partitioner_max_leaf_size,
             m_interior_node_traversal_cost = traversal_cost,
             m_item_intersection_cost = intersection_cost\<rparr>;
          items = [0..<item_count]
      in subdivide_recurse partitioner max_leaf_size 0 0 items (compute_bbox bboxes items))"

text \<open>The indices a node holds as a leaf, and the box of a node.\<close>

fun leaf_range :: "node \<Rightarrow> nat list" where
  "leaf_range (Leaf b e bbox) = [b..<e]"
| "leaf_range (Interior l r bbox) = []"

fun node_bbox :: "node \<Rightarrow> aabb option" where
  "node_bbox (Leaf b e bbox) = bbox"
| "node_bbox (Interior l r bbox) = bbox"

text \<open>The partitioner \<open>build_bvh\<close> constructs.\<close>

definition partitioner_of :: "('c, 'm, 'c3) env \<Rightarrow> 'c3 list \<Rightarrow> SAHPartitioner" where
  "partitioner_of E curves =
     \<lparr>m_bboxes = map (get_bbox E) curves,
      m_max_leaf_size = CurveTreeDefaultMaxLeafSize E,
      m_interior_node_traversal_cost = CurveTreeDefaultInteriorNodeTraversalCost E,
      m_item_intersection_cost = CurveTreeDefaultCurveIntersectionCost E\<rparr>"

text \<open>
  What is to hold of an interior node \<open>n\<close> of a subtree whose nodes are \<open>nodes\<close> and
  whose root stands at index \<open>ni\<close>: both children stand in the subtree, after its root,
  and the box of \<open>n\<close> is the union of theirs.
\<close>

fun children_ok :: "nat \<Rightarrow> node list \<Rightarrow> node \<Rightarrow> bool" where
  "children_ok ni nodes (Leaf b e bbox) = True"
| "children_ok ni nodes (Interior l r bbox) =
     (ni < l \<and> l - ni < length nodes \<and> ni < r \<and> r - ni < length nodes \<and>
      (\<exists>x y. node_bbox (nodes ! (l - ni)) = Some x \<and> node_bbox (nodes ! (r - ni)) = Some y
             \<and> bbox = Some (aabb_union x y)))"

subsection \<open>An example scene\<close>

text \<open>
  A scene for evaluating the definitions: curves are points on the x axis, a transform
  is a translation along it, the box of a curve is the unit cube at its distance from
  the origin, and the builder is the one above with a maximum leaf size of 1 and both
  costs 1.
\<close>

definition unit_box_at :: "scalar \<Rightarrow> aabb" where
  "unit_box_at x = \<lparr>aabb_min = (x, 0, 0), aabb_max = (x + 1, 1, 1)\<rparr>"

definition example_env :: "(scalar, scalar, scalar) env" where
  "example_env =
     \<lparr>BezierCurve3d = (\<lambda>c m. c + m), get_bbox = (\<lambda>c. unit_box_at \<bar>c\<bar>),
      CurveObjectFactory_get_model = ''curve_object'',
      CurveTreeDefaultMaxLeafSize = 1,
      CurveTreeDefaultInteriorNodeTraversalCost = 1,
      CurveTreeDefaultCurveIntersectionCost = 1,
      get_optional = ParamArray_get_optional,
      get_optional_double =
        ParamArray_get_optional_double (\<lambda>s. if s = ''0.75'' then 3 / 4 else 0),
      bvh_build = Builder_build\<rparr>"

definition example_arguments ::
  "string option \<Rightarrow> string option \<Rightarrow> (scalar, scalar) ObjectInstance list \<Rightarrow>
   (scalar, scalar) Arguments" where
  "example_arguments algorithm time instances =
     \<lparr>m_curve_tree_uid = 0,
      m_assembly =
        \<lparr>get_name = ''assembly'',
         get_parameters =
           (\<lambda>name. if name = ''acceleration_structure''
                    then (\<lambda>key. if key = ''algorithm'' then algorithm
                                else if key = ''time'' then time else None)
                    else Map.empty),
         object_instances = instances\<rparr>\<rparr>"

definition example_instances :: "(scalar, scalar) ObjectInstance list" where
  "example_instances =
     [\<lparr>get_object = \<lparr>get_model = ''curve_object'', get_curves = [0, 4]\<rparr>, get_transform = 1\<rparr>,
      \<lparr>get_object = \<lparr>get_model = ''mesh_object'', get_curves = [7]\<rparr>, get_transform = 0\<rparr>,
      \<lparr>get_object = \<lparr>get_model = ''curve_object'', get_curves = [3]\<rparr>, get_transform = 0\<rparr>]"




definition mesh_instances :: "(scalar, scalar) ObjectInstance list" where
  "mesh_instances =
     [\<lparr>get_object = \<lparr>get_model = ''mesh_object'', get_curves = [7]\<rparr>, get_transform = 0\<rparr>]"

subsection \<open>Facts about \<^verbatim>\<open>collect_curves\<close>\<close>

lemma curve_loop_eq:
  "curve_loop E ob t i j (cs, ks) =
     (cs @ map (\<lambda>k. BezierCurve3d E (get_curves ob ! k) t) [j..<length (get_curves ob)],
      ks @ map (\<lambda>k. CurveKey i k 0) [j..<length (get_curves ob)])"
proof (induction E ob t i j "(cs, ks)" arbitrary: cs ks rule: curve_loop.induct)
  case (1 E ob t i j cs ks)
  show ?case
  proof (cases "j < length (get_curves ob)")
    case True
    then show ?thesis
      using "1.hyps" [OF True] by (simp add: upt_conv_Cons curve_loop.simps [of E ob t i j])
  next
    case False
    then show ?thesis by (simp add: curve_loop.simps [of E ob t i j])
  qed
qed

lemma curve_loop_from_0:
  "curve_loop E ob t i 0 (cs, ks) =
     (cs @ map (\<lambda>c. BezierCurve3d E c t) (get_curves ob),
      ks @ map (\<lambda>k. CurveKey i k 0) [0..<length (get_curves ob)])"
proof -
  have "map (\<lambda>k. BezierCurve3d E (get_curves ob ! k) t) [0..<length (get_curves ob)]
        = map (\<lambda>c. BezierCurve3d E c t) (get_curves ob)"
    by (rule nth_equalityI) simp_all
  then show ?thesis by (simp add: curve_loop_eq)
qed

lemma instance_loop_eq:
  "instance_loop E a i out =
     (fst out @ concat (map (\<lambda>k. instance_curves E (object_instances (m_assembly a) ! k))
                     [i..<length (object_instances (m_assembly a))]),
      snd out @ concat (map (\<lambda>k. instance_keys E k (object_instances (m_assembly a) ! k))
                     [i..<length (object_instances (m_assembly a))]))"
proof (induction E a i out rule: instance_loop.induct)
  case (1 E a i out)
  let ?n = "length (object_instances (m_assembly a))"
  let ?oi = "object_instances (m_assembly a) ! i"
  show ?case
  proof (cases "i < ?n")
    case False
    then show ?thesis by (simp add: instance_loop.simps [of E a i])
  next
    case True
    note inrange = this
    show ?thesis
    proof (cases "get_model (get_object ?oi) = CurveObjectFactory_get_model E")
      case False
      have "instance_loop E a i out = instance_loop E a (Suc i) out"
        using inrange False by (simp add: instance_loop.simps [of E a i] Let_def)
      also note "1.IH"(1) [OF inrange refl refl False]
      finally show ?thesis
        using inrange False
        by (simp add: upt_conv_Cons instance_curves_def instance_keys_def)
    next
      case True
      define out' where "out' = curve_loop E (get_object ?oi) (get_transform ?oi) i 0 out"
      have step: "out' = (fst out @ instance_curves E ?oi, snd out @ instance_keys E i ?oi)"
        using True
          curve_loop_from_0 [of E "get_object ?oi" "get_transform ?oi" i "fst out" "snd out"]
        by (simp add: out'_def instance_curves_def instance_keys_def)
      have "instance_loop E a i out = instance_loop E a (Suc i) out'"
        using inrange True by (simp add: instance_loop.simps [of E a i] Let_def out'_def)
      also have "\<dots> =
        (fst out' @ concat (map (\<lambda>k. instance_curves E (object_instances (m_assembly a) ! k))
                        [Suc i..<?n]),
         snd out' @ concat (map (\<lambda>k. instance_keys E k (object_instances (m_assembly a) ! k))
                        [Suc i..<?n]))"
        using "1.IH"(2) [OF inrange refl refl _ refl] True by (simp add: out'_def)
      finally show ?thesis
        using inrange by (simp add: upt_conv_Cons step)
    qed
  qed
qed

lemma length_instance_keys: "length (instance_keys E i oi) = length (instance_curves E oi)"
  by (simp add: instance_keys_def instance_curves_def)

lemma material_index_instance_keys:
  "k \<in> set (instance_keys E i oi) \<Longrightarrow> material_index k = 0"
  by (auto simp: instance_keys_def split: if_splits)

lemma map_nth_all: "map (\<lambda>k. f (xs ! k)) [0..<length xs] = map f xs"
  by (rule nth_equalityI) simp_all

lemma map_nth_enumerate:
  "map (\<lambda>k. g k (xs ! k)) [0..<length xs] = map (\<lambda>(i, x). g i x) (enumerate 0 xs)"
  by (rule nth_equalityI) (simp_all add: nth_enumerate_eq)

lemma collect_curves_eq:
  "collect_curves E arguments out =
     (fst out @ concat (map (instance_curves E) (object_instances (m_assembly arguments))),
      snd out @ concat (map (\<lambda>(i, oi). instance_keys E i oi)
                          (enumerate 0 (object_instances (m_assembly arguments)))))"
  unfolding collect_curves_def instance_loop_eq
  by (simp only: map_nth_all map_nth_enumerate)

lemma length_concat_enumerate:
  "length (concat (map (\<lambda>(i, oi). instance_keys E i oi) (enumerate n xs)))
   = length (concat (map (instance_curves E) xs))"
  by (induction xs arbitrary: n) (simp_all add: length_instance_keys)

subsection \<open>Facts about the reordering and the constructor\<close>

lemma small_item_reorder_Inr:
  assumes "small_item_reorder items n order (length order) = Inr items'"
  shows "length items' = length items"
    and "p < length items \<Longrightarrow> source_index order p < length items"
    and "p < length items \<Longrightarrow> items' ! p = items ! source_index order p"
proof -
  from assms have le: "length order \<le> length items"
    and inr: "list_all (\<lambda>k. k < length items) order"
    and eq: "items' = map (\<lambda>i. items ! (order ! i)) [0..<length order] @ drop (length order) items"
    by (auto simp: small_item_reorder_def split: if_splits)
  show "length items' = length items"
    using le by (simp add: eq)
  show "source_index order p < length items" if "p < length items"
    using that inr by (auto simp: source_index_def list_all_length)
  show "items' ! p = items ! source_index order p" if "p < length items"
    using that le by (auto simp: eq source_index_def nth_append)
qed

lemma build_bvh_fresh:
  assumes "collect_curves E a ([], []) = (curves, curve_keys)"
    and "bvh_of E curves = (nodes, order)"
  shows "build_bvh E a params time \<lparr>m_nodes = [], m_curves3 = [], m_curve_keys = []\<rparr> =
     (if curves \<noteq> []
      then
        (case small_item_reorder curves (length curves) order (length order) of
           Inl e \<Rightarrow> (\<lparr>m_nodes = nodes, m_curves3 = curves, m_curve_keys = curve_keys\<rparr>, Some e)
         | Inr temp_curves \<Rightarrow>
             (case small_item_reorder curve_keys (length curve_keys) order (length order) of
                Inl e \<Rightarrow>
                  (\<lparr>m_nodes = nodes, m_curves3 = temp_curves, m_curve_keys = curve_keys\<rparr>, Some e)
              | Inr temp_keys \<Rightarrow>
                  (\<lparr>m_nodes = nodes, m_curves3 = temp_curves, m_curve_keys = temp_keys\<rparr>, None)))
      else (\<lparr>m_nodes = nodes, m_curves3 = [], m_curve_keys = curve_keys\<rparr>, None))"
  using assms by (simp add: build_bvh_def split: sum.splits)

lemma build_bvh_cong:
  assumes "object_instances (m_assembly a1) = object_instances (m_assembly a2)"
  shows "build_bvh E a1 params1 time1 this = build_bvh E a2 params2 time2 this"
  using assms by (simp add: build_bvh_def collect_curves_eq)

lemma ctor_throws:
  assumes "get_optional E (get_parameters (m_assembly a) ''acceleration_structure'')
             ''algorithm'' ''bvh'' [''bvh'', ''sbvh''] = Inr algorithm"
    and "algorithm \<noteq> ''bvh''"
  shows "CurveTree_CurveTree E a =
           (\<lparr>m_nodes = [], m_curves3 = [], m_curve_keys = []\<rparr>, Some ExceptionNotImplemented)"
  using assms by (simp add: CurveTree_CurveTree_def)

lemma ctor_read_throws:
  assumes "get_optional E (get_parameters (m_assembly a) ''acceleration_structure'')
             ''algorithm'' ''bvh'' [''bvh'', ''sbvh''] = Inl e"
  shows "CurveTree_CurveTree E a =
           (\<lparr>m_nodes = [], m_curves3 = [], m_curve_keys = []\<rparr>, Some e)"
  using assms by (simp add: CurveTree_CurveTree_def)

lemma ctor_success:
  assumes "CurveTree_CurveTree E a = (tree, None)"
    and "collect_curves E a ([], []) = (curves, curve_keys)"
    and "bvh_of E curves = (nodes, order)"
  shows "m_nodes tree = nodes" and "nodes \<noteq> []"
    and "curves = [] \<Longrightarrow> m_curves3 tree = [] \<and> m_curve_keys tree = curve_keys"
    and "curves \<noteq> [] \<Longrightarrow>
           small_item_reorder curves (length curves) order (length order) = Inr (m_curves3 tree)
           \<and> small_item_reorder curve_keys (length curve_keys) order (length order)
               = Inr (m_curve_keys tree)"
  using assms(1)
  unfolding CurveTree_CurveTree_def Let_def build_bvh_fresh [OF assms(2,3)]
  by (auto split: sum.splits if_splits)

lemma length_collect_curves:
  "collect_curves E a ([], []) = (curves, curve_keys) \<Longrightarrow> length curve_keys = length curves"
  by (auto simp: collect_curves_eq length_concat_enumerate)

subsection \<open>Facts about bounding boxes, the partitioner and the builder\<close>

lemma vmin_assoc: "vmin (vmin a b) c = vmin a (vmin b c)"
  by (simp add: vmin_def split: prod.splits) (simp add: min.assoc)
lemma vmin_commute: "vmin a b = vmin b a"
  by (simp add: vmin_def split: prod.splits) (simp add: min.commute)
lemma vmax_assoc: "vmax (vmax a b) c = vmax a (vmax b c)"
  by (simp add: vmax_def split: prod.splits) (simp add: max.assoc)
lemma vmax_commute: "vmax a b = vmax b a"
  by (simp add: vmax_def split: prod.splits) (simp add: max.commute)

lemma aabb_union_assoc: "aabb_union (aabb_union a b) c = aabb_union a (aabb_union b c)"
  by (simp add: aabb_union_def vmin_assoc vmax_assoc)
lemma aabb_union_commute: "aabb_union a b = aabb_union b a"
  by (simp add: aabb_union_def vmin_commute vmax_commute)

lemma bbox_union_None_right [simp]: "bbox_union x None = x"
  by (cases x) simp_all

lemma bbox_union_assoc: "bbox_union (bbox_union x y) z = bbox_union x (bbox_union y z)"
  by (cases x; cases y; cases z) (simp_all add: aabb_union_assoc)

lemma bbox_union_commute: "bbox_union x y = bbox_union y x"
  by (cases x; cases y) (simp_all add: aabb_union_commute)

lemma fold_bbox_union:
  "fold (\<lambda>i acc. bbox_union acc (Some (B ! i))) items acc
   = bbox_union acc (fold (\<lambda>i acc. bbox_union acc (Some (B ! i))) items None)"
proof (induction items arbitrary: acc)
  case Nil
  then show ?case by simp
next
  case (Cons i items)
  show ?case
    using Cons.IH [of "bbox_union acc (Some (B ! i))"] Cons.IH [of "Some (B ! i)"]
    by (simp add: bbox_union_assoc)
qed

lemma compute_bbox_Nil [simp]: "compute_bbox B [] = None"
  by (simp add: compute_bbox_def)

lemma compute_bbox_Cons:
  "compute_bbox B (i # items) = bbox_union (Some (B ! i)) (compute_bbox B items)"
  using fold_bbox_union [of B items "Some (B ! i)"] by (simp add: compute_bbox_def)

lemma compute_bbox_append:
  "compute_bbox B (xs @ ys) = bbox_union (compute_bbox B xs) (compute_bbox B ys)"
  by (induction xs) (simp_all add: compute_bbox_Cons bbox_union_assoc)

lemma compute_bbox_Some: "items \<noteq> [] \<Longrightarrow> \<exists>box. compute_bbox B items = Some box"
  by (cases items; cases "compute_bbox B (tl items)") (simp_all add: compute_bbox_Cons)

lemma compute_bbox_insort:
  "compute_bbox B (insort_key f x xs) = compute_bbox B (x # xs)"
proof (induction xs)
  case Nil
  then show ?case by simp
next
  case (Cons y ys)
  have swap: "bbox_union (Some (B ! y)) (bbox_union (Some (B ! x)) z)
            = bbox_union (Some (B ! x)) (bbox_union (Some (B ! y)) z)" for z
    by (metis bbox_union_assoc bbox_union_commute)
  show ?case
    using Cons.IH by (simp add: compute_bbox_Cons swap)
qed

lemma compute_bbox_sort_key: "compute_bbox B (sort_key f xs) = compute_bbox B xs"
  by (induction xs) (simp_all add: compute_bbox_insort compute_bbox_Cons)

lemma partition_bbox:
  assumes "partition P items bbox = Some (left, right)"
  shows "bbox_union (compute_bbox (m_bboxes P) left) (compute_bbox (m_bboxes P) right)
         = compute_bbox (m_bboxes P) items"
proof -
  from assms obtain pivot where
    "left = take pivot (sort_along P (dominant_axis bbox) items)"
    "right = drop pivot (sort_along P (dominant_axis bbox) items)"
    by (rule partition_pivot)
  then have "left @ right = sort_along P (dominant_axis bbox) items"
    by simp
  then have "compute_bbox (m_bboxes P) (left @ right) = compute_bbox (m_bboxes P) items"
    by (simp add: sort_along_def compute_bbox_sort_key)
  then show ?thesis by (simp add: compute_bbox_append)
qed

lemma partition_perm:
  assumes "partition P items bbox = Some (left, right)"
  shows "set left \<union> set right = set items"
    and "distinct items \<Longrightarrow> distinct (left @ right)"
proof -
  from assms obtain pivot where
    "left = take pivot (sort_along P (dominant_axis bbox) items)"
    "right = drop pivot (sort_along P (dominant_axis bbox) items)"
    by (rule partition_pivot)
  then have eq: "left @ right = sort_along P (dominant_axis bbox) items"
    by simp
  have "set (left @ right) = set items"
    unfolding eq by (simp add: sort_along_def)
  then show "set left \<union> set right = set items" by simp
  show "distinct (left @ right)" if "distinct items"
    unfolding eq using that by (simp add: sort_along_def)
qed

lemma subdivide_leaf:
  "length items \<le> m \<or> partition P items bbox = None \<Longrightarrow>
   subdivide_recurse P m ni b items bbox = ([Leaf b (b + length items) bbox], items)"
  by (auto simp: subdivide_recurse.simps [of P m ni b items bbox])

lemma subdivide_split:
  assumes "\<not> length items \<le> m" and "partition P items bbox = Some (l, r)"
    and "subdivide_recurse P m (ni + 1) b l (compute_bbox (m_bboxes P) l) = (lns, lis)"
    and "subdivide_recurse P m (ni + 1 + length lns) (b + length l) r
           (compute_bbox (m_bboxes P) r) = (rns, ris)"
  shows "subdivide_recurse P m ni b items bbox
         = (Interior (ni + 1) (ni + 1 + length lns) bbox # lns @ rns, lis @ ris)"
  using assms by (simp add: subdivide_recurse.simps [of P m ni b items bbox])

lemma subdivide_cases:
  assumes run: "subdivide_recurse P m ni b items bbox = (nodes, items')"
    and leaf: "\<And>P m ni b items bbox.
        length items \<le> m \<or> partition P items bbox = None \<Longrightarrow>
        Q P m ni b items bbox [Leaf b (b + length items) bbox] items"
    and split: "\<And>P m ni b items bbox l r lns lis rns ris.
        \<not> length items \<le> m \<Longrightarrow>
        partition P items bbox = Some (l, r) \<Longrightarrow>
        subdivide_recurse P m (ni + 1) b l (compute_bbox (m_bboxes P) l) = (lns, lis) \<Longrightarrow>
        subdivide_recurse P m (ni + 1 + length lns) (b + length l) r
          (compute_bbox (m_bboxes P) r) = (rns, ris) \<Longrightarrow>
        Q P m (ni + 1) b l (compute_bbox (m_bboxes P) l) lns lis \<Longrightarrow>
        Q P m (ni + 1 + length lns) (b + length l) r (compute_bbox (m_bboxes P) r) rns ris \<Longrightarrow>
        Q P m ni b items bbox (Interior (ni + 1) (ni + 1 + length lns) bbox # lns @ rns)
          (lis @ ris)"
  shows "Q P m ni b items bbox nodes items'"
  using run
proof (induction P m ni b items bbox arbitrary: nodes items' rule: subdivide_recurse.induct)
  case (1 P m ni b items bbox)
  show ?case
  proof (cases "length items \<le> m \<or> partition P items bbox = None")
    case True
    with "1.prems" leaf [OF True, of ni b] show ?thesis
      by (auto simp: subdivide_leaf)
  next
    case False
    then have big: "\<not> length items \<le> m" by simp
    from False obtain l r where part: "partition P items bbox = Some (l, r)"
      by (cases "partition P items bbox") auto
    have cond: "(if length items \<le> m then None else partition P items bbox) = Some (l, r)"
      using big part by simp
    obtain lns lis where left:
      "subdivide_recurse P m (ni + 1) b l (compute_bbox (m_bboxes P) l) = (lns, lis)"
      by (cases "subdivide_recurse P m (ni + 1) b l (compute_bbox (m_bboxes P) l)")
    obtain rns ris where right:
      "subdivide_recurse P m (ni + 1 + length lns) (b + length l) r
          (compute_bbox (m_bboxes P) r) = (rns, ris)"
      by (cases "subdivide_recurse P m (ni + 1 + length lns) (b + length l) r
          (compute_bbox (m_bboxes P) r)")
    have q1: "Q P m (ni + 1) b l (compute_bbox (m_bboxes P) l) lns lis"
      using "1.IH"(1) [OF cond refl refl refl refl left] .
    have q2: "Q P m (ni + 1 + length lns) (b + length l) r (compute_bbox (m_bboxes P) r) rns ris"
      using "1.IH"(2) [OF cond refl refl refl refl left [symmetric] refl refl right] .
    have "subdivide_recurse P m ni b items bbox
          = (Interior (ni + 1) (ni + 1 + length lns) bbox # lns @ rns, lis @ ris)"
      using big part left right by (rule subdivide_split)
    with "1.prems" split [OF big part left right q1 q2] show ?thesis
      by auto
  qed
qed


lemma subdivide_root:
  assumes "subdivide_recurse P m ni b items bbox = (nodes, items')"
  shows "nodes \<noteq> [] \<and> node_bbox (nodes ! 0) = bbox"
  by (rule subdivide_cases
      [where Q = "\<lambda>P m ni b items bbox nodes items'. nodes \<noteq> [] \<and> node_bbox (nodes ! 0) = bbox",
       OF assms]) simp_all

lemma subdivide_items:
  assumes "subdivide_recurse P m ni b items bbox = (nodes, items')"
  shows "length items' = length items \<and> set items' = set items
         \<and> (distinct items \<longrightarrow> distinct items')"
proof (rule subdivide_cases
      [where Q = "\<lambda>P m ni b items bbox nodes items'.
         length items' = length items \<and> set items' = set items
         \<and> (distinct items \<longrightarrow> distinct items')", OF assms], goal_cases)
  case 1
  then show ?case by simp
next
  case (2 P m ni b items bbox l r lns lis rns ris)
  note part = partition_lengths(3) [OF 2(2)] partition_perm [OF 2(2)]
  show ?case
  proof (intro conjI impI)
    show "length (lis @ ris) = length items"
      using 2(5,6) part(1) by simp
    show "set (lis @ ris) = set items"
      using 2(5,6) part(2) by simp
    show "distinct (lis @ ris)" if "distinct items"
      using 2(5,6) part(3) [OF that] by auto
  qed
qed

lemma subdivide_leaf_ranges:
  assumes "subdivide_recurse P m ni b items bbox = (nodes, items')"
  shows "concat (map leaf_range nodes) = [b..<b + length items]"
proof (rule subdivide_cases
      [where Q = "\<lambda>P m ni b items bbox nodes items'.
         concat (map leaf_range nodes) = [b..<b + length items]", OF assms], goal_cases)
  case 1
  then show ?case by simp
next
  case (2 P m ni b items bbox l r lns lis rns ris)
  have "length items = length l + length r"
    using partition_lengths(3) [OF 2(2)] by simp
  then have "[b..<b + length items] = [b..<b + length l] @ [b + length l..<b + length l + length r]"
    using upt_add_eq_append [of b "b + length l" "length r"] by (simp add: add.assoc)
  then show ?case
    using 2(5,6) by simp
qed

lemma nth_subtree_right: "(n0 # lns @ rns) ! Suc (length lns + k) = rns ! k"
  by (simp add: nth_append)

lemma children_ok_shift:
  assumes ok: "children_ok (Suc (ni + d)) sub n"
    and nth: "\<And>k. k < length sub \<Longrightarrow> whole ! Suc (d + k) = sub ! k"
    and len: "Suc (d + length sub) \<le> length whole"
  shows "children_ok ni whole n"
proof (cases n)
  case (Leaf b e bbox)
  then show ?thesis by simp
next
  case (Interior l r bbox)
  with ok obtain x y where
    l: "Suc (ni + d) < l" "l - Suc (ni + d) < length sub"
    and r: "Suc (ni + d) < r" "r - Suc (ni + d) < length sub"
    and bx: "node_bbox (sub ! (l - Suc (ni + d))) = Some x"
      "node_bbox (sub ! (r - Suc (ni + d))) = Some y" "bbox = Some (aabb_union x y)"
    by auto
  define kl where "kl = l - Suc (ni + d)"
  define kr where "kr = r - Suc (ni + d)"
  have l_eq: "l - ni = Suc (d + kl)" and r_eq: "r - ni = Suc (d + kr)"
    using l(1) r(1) by (simp_all add: kl_def kr_def)
  have kl: "kl < length sub" and kr: "kr < length sub"
    using l(2) r(2) by (simp_all add: kl_def kr_def)
  have "ni < l" "ni < r"
    using l(1) r(1) by simp_all
  moreover have "l - ni < length whole" "r - ni < length whole"
    using kl kr len by (simp_all add: l_eq r_eq)
  moreover have "node_bbox (whole ! (l - ni)) = Some x" "node_bbox (whole ! (r - ni)) = Some y"
    using bx(1,2) [folded kl_def kr_def] nth [OF kl] nth [OF kr] by (simp_all add: l_eq r_eq)
  ultimately show ?thesis
    using Interior bx(3) by simp
qed

lemma children_ok_left:
  assumes "children_ok (ni + 1) lns n"
  shows "children_ok ni (n0 # lns @ rns) n"
proof (rule children_ok_shift [where d = 0 and sub = lns])
  show "children_ok (Suc (ni + 0)) lns n"
    using assms by simp
  show "(n0 # lns @ rns) ! Suc (0 + k) = lns ! k" if "k < length lns" for k
    using that by (simp add: nth_append)
  show "Suc (0 + length lns) \<le> length (n0 # lns @ rns)"
    by simp
qed

lemma children_ok_right:
  assumes "children_ok (ni + 1 + length lns) rns n"
  shows "children_ok ni (n0 # lns @ rns) n"
proof (rule children_ok_shift [where d = "length lns" and sub = rns])
  show "children_ok (Suc (ni + length lns)) rns n"
    using assms by simp
  show "(n0 # lns @ rns) ! Suc (length lns + k) = rns ! k" if "k < length rns" for k
    by (simp add: nth_append)
  show "Suc (length lns + length rns) \<le> length (n0 # lns @ rns)"
    by simp
qed

lemma subdivide_children:
  assumes "subdivide_recurse P m ni b items bbox = (nodes, items')"
    and "bbox = compute_bbox (m_bboxes P) items"
  shows "\<forall>n\<in>set nodes. children_ok ni nodes n"
proof -
  have "bbox = compute_bbox (m_bboxes P) items \<longrightarrow> (\<forall>n\<in>set nodes. children_ok ni nodes n)"
  proof (rule subdivide_cases
      [where Q = "\<lambda>P m ni b items bbox nodes items'.
         bbox = compute_bbox (m_bboxes P) items \<longrightarrow> (\<forall>n\<in>set nodes. children_ok ni nodes n)",
       OF assms(1)], goal_cases)
    case 1
    then show ?case by simp
  next
    case (2 P m ni b items bbox l r lns lis rns ris)
    let ?B = "m_bboxes P"
    let ?whole = "Interior (ni + 1) (ni + 1 + length lns) bbox # lns @ rns"
    show ?case
    proof (intro impI ballI)
      fix n
      assume box: "bbox = compute_bbox ?B items" and n: "n \<in> set ?whole"
      from 2(5) have left_ok: "\<forall>n\<in>set lns. children_ok (ni + 1) lns n" by simp
      from 2(6) have right_ok: "\<forall>n\<in>set rns. children_ok (ni + 1 + length lns) rns n" by simp
      from subdivide_root [OF 2(3)] have lroot: "lns \<noteq> []" "node_bbox (lns ! 0) = compute_bbox ?B l"
        by simp_all
      from subdivide_root [OF 2(4)] have rroot: "rns \<noteq> []" "node_bbox (rns ! 0) = compute_bbox ?B r"
        by simp_all
      from compute_bbox_Some [OF partition_lengths(4) [OF 2(2)]]
      obtain x where x: "compute_bbox ?B l = Some x" by blast
      from compute_bbox_Some [OF partition_lengths(5) [OF 2(2)]]
      obtain y where y: "compute_bbox ?B r = Some y" by blast
      have union: "bbox = Some (aabb_union x y)"
        using partition_bbox [OF 2(2)] box x y by simp
      consider "n = Interior (ni + 1) (ni + 1 + length lns) bbox" | "n \<in> set lns" | "n \<in> set rns"
        using n by auto
      then show "children_ok ni ?whole n"
      proof cases
        case 1
        have l_at: "?whole ! (ni + 1 - ni) = lns ! 0"
          using lroot(1) by (simp add: nth_append)
        have r_at: "?whole ! (ni + 1 + length lns - ni) = rns ! 0"
          using nth_subtree_right [of _ lns rns 0] by simp
        have "ni + 1 - ni < length ?whole" "ni + 1 + length lns - ni < length ?whole"
          using lroot(1) rroot(1) by (simp_all add: Suc_le_eq)
        then show ?thesis
          unfolding 1 children_ok.simps l_at r_at
          using lroot(2) rroot(2) x y union by simp
      next
        case 2
        then show ?thesis
          using left_ok by (auto intro: children_ok_left)
      next
        case 3
        then show ?thesis
          using right_ok by (auto intro: children_ok_right)
      qed
    qed
  qed
  with assms(2) show ?thesis by simp
qed

lemma least_cost_None: "least_cost cs = None \<Longrightarrow> cs = []"
  by (cases cs) (auto split: option.splits if_splits)

lemma least_cost_le: "least_cost cs = Some d \<Longrightarrow> c \<in> set cs \<Longrightarrow> fst d \<le> fst c"
  by (induction cs arbitrary: d) (auto split: option.splits if_splits dest: least_cost_None)

lemma partition_least_cost:
  assumes "partition P items bbox = Some (left, right)"
    and "c \<in> set (candidates P bbox (sort_along P (dominant_axis bbox) items))"
  shows "split_cost P bbox left right \<le> fst c"
proof -
  let ?s = "sort_along P (dominant_axis bbox) items"
  from assms(1) obtain cost pivot where
    lc: "least_cost (candidates P bbox ?s) = Some (cost, pivot)"
    and lr: "left = take pivot ?s" "right = drop pivot ?s"
    by (auto simp: partition_def Let_def split: if_splits option.splits)
  from least_cost_mem [OF lc] have "cost = split_cost P bbox left right"
    by (auto simp: candidates_def lr)
  with least_cost_le [OF lc assms(2)] show ?thesis by simp
qed




lemma bvh_of_Builder:
  assumes "bvh_build E = Builder_build"
  shows "bvh_of E curves =
     subdivide_recurse (partitioner_of E curves) (CurveTreeDefaultMaxLeafSize E) 0 0
       [0..<length curves] (compute_bbox (map (get_bbox E) curves) [0..<length curves])"
  by (simp add: assms Builder_build_def partitioner_of_def Let_def)

lemma sah_order:
  assumes "bvh_build E = Builder_build" and "bvh_of E curves = (nodes, order)"
  shows "length order = length curves" and "set order = {0..<length curves}" and "distinct order"
  using subdivide_items [OF assms(2) [unfolded bvh_of_Builder [OF assms(1)]]] by simp_all

lemma sah_reorder:
  assumes "bvh_build E = Builder_build" and "bvh_of E curves = (nodes, order)"
    and "length items = length curves"
  shows "small_item_reorder items (length items) order (length order)
         = Inr (map (\<lambda>i. items ! (order ! i)) [0..<length items])"
proof -
  note ord = sah_order [OF assms(1,2)]
  have "list_all (\<lambda>k. k < length items) order"
    using ord(2) assms(3) by (auto simp: list_all_iff)
  then show ?thesis
    using ord(1) assms(3) by (simp add: small_item_reorder_def)
qed

lemma sah_ctor:
  assumes sah: "bvh_build E = Builder_build"
    and alg: "get_optional E (get_parameters (m_assembly a) ''acceleration_structure'')
           ''algorithm'' ''bvh'' [''bvh'', ''sbvh''] = Inr ''bvh''"
    and col: "collect_curves E a ([], []) = (curves, curve_keys)"
    and bvh: "bvh_of E curves = (nodes, order)"
  shows "CurveTree_CurveTree E a =
     (\<lparr>m_nodes = nodes,
       m_curves3 = map (\<lambda>i. curves ! (order ! i)) [0..<length curves],
       m_curve_keys = map (\<lambda>i. curve_keys ! (order ! i)) [0..<length curves]\<rparr>, None)"
proof -
  have len: "length curve_keys = length curves"
    using col by (rule length_collect_curves)
  have nodes: "nodes \<noteq> []"
    using subdivide_root [OF bvh [unfolded bvh_of_Builder [OF sah]]] by simp
  have r1: "small_item_reorder curves (length curves) order (length order)
         = Inr (map (\<lambda>i. curves ! (order ! i)) [0..<length curves])"
    using sah bvh refl by (rule sah_reorder)
  have r2: "small_item_reorder curve_keys (length curve_keys) order (length order)
         = Inr (map (\<lambda>i. curve_keys ! (order ! i)) [0..<length curves])"
    using sah_reorder [OF sah bvh len] len by simp
  show ?thesis
    unfolding CurveTree_CurveTree_def Let_def alg build_bvh_fresh [OF col bvh] r1 r2
    using nodes len by auto
qed

lemma concat_distinct_unique:
  assumes "distinct (concat xss)" and "k < length xss" and "k' < length xss"
    and "i \<in> set (xss ! k)" and "i \<in> set (xss ! k')"
  shows "k = k'"
  using assms
proof (induction xss arbitrary: k k')
  case Nil
  then show ?case by simp
next
  case (Cons xs xss)
  have disj: "set xs \<inter> set (concat xss) = {}" and rest: "distinct (concat xss)"
    using Cons.prems(1) by auto
  have later: "i \<in> set (concat xss)" if "j < length xss" "i \<in> set (xss ! j)" for j
    using that by (auto intro: nth_mem)
  show ?case
  proof (cases k)
    case 0
    note k0 = this
    show ?thesis
    proof (cases k')
      case 0
      with k0 show ?thesis by simp
    next
      case (Suc j')
      with k0 Cons.prems disj later [of j'] show ?thesis by auto
    qed
  next
    case (Suc j)
    note kj = this
    show ?thesis
    proof (cases k')
      case 0
      with kj Cons.prems disj later [of j] show ?thesis by auto
    next
      case (Suc j')
      with kj Cons.prems Cons.IH [OF rest, of j j'] show ?thesis by simp
    qed
  qed
qed

lemma concat_upt_unique:
  assumes "concat xss = [0..<n]" and "i < n"
  shows "\<exists>!k. k < length xss \<and> i \<in> set (xss ! k)"
proof -
  have dist: "distinct (concat xss)"
    by (simp add: assms(1))
  have "i \<in> set (concat xss)"
    using assms by simp
  then obtain xs where "xs \<in> set xss" "i \<in> set xs"
    by auto
  then obtain k where "k < length xss" "i \<in> set (xss ! k)"
    by (auto simp: in_set_conv_nth)
  then show ?thesis
    using concat_distinct_unique [OF dist] by (intro ex1I [of _ k]) auto
qed

lemma sah_tree:
  assumes sah: "bvh_build E = Builder_build"
    and ok: "CurveTree_CurveTree E a = (tree, None)"
    and col: "collect_curves E a ([], []) = (curves, curve_keys)"
  shows "subdivide_recurse (partitioner_of E curves) (CurveTreeDefaultMaxLeafSize E) 0 0
           [0..<length curves] (compute_bbox (map (get_bbox E) curves) [0..<length curves])
         = (m_nodes tree, snd (bvh_of E curves))"
proof -
  obtain nodes order where bvh: "bvh_of E curves = (nodes, order)"
    by (cases "bvh_of E curves")
  have "m_nodes tree = nodes"
    using ok col bvh by (rule ctor_success(1))
  then show ?thesis
    using bvh by (simp add: bvh_of_Builder [OF sah, symmetric])
qed

lemma Builder_build_empty:
  "subdivide_recurse P m ni b [] None = ([Leaf b b None], [])"
  using subdivide_leaf [of "[]" m P None ni b] by simp

subsection \<open>The example scene, evaluated\<close>

lemma example_collect:
  "collect_curves example_env (example_arguments algorithm time example_instances) ([], []) =
     ([1, 5, 3], [CurveKey 0 0 0, CurveKey 0 1 0, CurveKey 2 0 0])"
  by (simp add: collect_curves_eq example_env_def example_arguments_def example_instances_def
      instance_curves_def instance_keys_def enumerate_eq_zip upt_rec)

lemma example_bvh:
  "bvh_of example_env [1, 5, 3] =
     ([Interior 1 2 (Some \<lparr>aabb_min = (1, 0, 0), aabb_max = (6, 1, 1)\<rparr>),
       Leaf 0 1 (Some \<lparr>aabb_min = (1, 0, 0), aabb_max = (2, 1, 1)\<rparr>),
       Interior 3 4 (Some \<lparr>aabb_min = (3, 0, 0), aabb_max = (6, 1, 1)\<rparr>),
       Leaf 1 2 (Some \<lparr>aabb_min = (3, 0, 0), aabb_max = (4, 1, 1)\<rparr>),
       Leaf 2 3 (Some \<lparr>aabb_min = (5, 0, 0), aabb_max = (6, 1, 1)\<rparr>)],
      [0, 2, 1])"
  by code_simp

lemma example_tree:
  "CurveTree_CurveTree example_env (example_arguments None None example_instances) =
     (\<lparr>m_nodes =
         [Interior 1 2 (Some \<lparr>aabb_min = (1, 0, 0), aabb_max = (6, 1, 1)\<rparr>),
          Leaf 0 1 (Some \<lparr>aabb_min = (1, 0, 0), aabb_max = (2, 1, 1)\<rparr>),
          Interior 3 4 (Some \<lparr>aabb_min = (3, 0, 0), aabb_max = (6, 1, 1)\<rparr>),
          Leaf 1 2 (Some \<lparr>aabb_min = (3, 0, 0), aabb_max = (4, 1, 1)\<rparr>),
          Leaf 2 3 (Some \<lparr>aabb_min = (5, 0, 0), aabb_max = (6, 1, 1)\<rparr>)],
       m_curves3 = [1, 3, 5],
       m_curve_keys = [CurveKey 0 0 0, CurveKey 2 0 0, CurveKey 0 1 0]\<rparr>,
      None)"
  by code_simp

lemma example_sah: "bvh_build example_env = Builder_build"
  by (simp add: example_env_def)







section \<open>The claims\<close>

subsection \<open>The geometry collector\<close>

text \<open>
  Claim C6. The collector processes only the object instances whose object carries the
  model tag of curve objects and skips every other one without an error. For each
  curve of such an object it appends one primitive and one key, in the order of the
  iteration: by object-instance index, then by curve index (\<open>instance_curves\<close> and
  \<open>instance_keys\<close> say this without loops). The two sequences it fills from empty
  have the same length.
\<close>

theorem collect_curves_emits:
  "collect_curves E arguments (curves, curve_keys) =
     (curves @ concat (map (instance_curves E) (object_instances (m_assembly arguments))),
      curve_keys @ concat (map (\<lambda>(i, oi). instance_keys E i oi)
                          (enumerate 0 (object_instances (m_assembly arguments)))))
   \<and> length (fst (collect_curves E arguments ([], [])))
     = length (snd (collect_curves E arguments ([], [])))"
  by (simp add: collect_curves_eq length_concat_enumerate)

theorem collect_curves_emits_witness:
  "collect_curves example_env (example_arguments None None example_instances) ([], []) =
     ([1, 5, 3], [CurveKey 0 0 0, CurveKey 0 1 0, CurveKey 2 0 0])"
  using collect_curves_emits
    [of example_env "example_arguments None None example_instances" "[]" "[]"]
  by (simp add: example_env_def example_arguments_def example_instances_def
      instance_curves_def instance_keys_def enumerate_eq_zip upt_rec)

text \<open>
  Claim C9. Every key the collector emits carries the material index 0, whatever the
  assembly and the curve.
\<close>

theorem material_index_zero:
  "k \<in> set (snd (collect_curves E arguments ([], []))) \<Longrightarrow> material_index k = 0"
  by (auto simp: collect_curves_eq dest: material_index_instance_keys)

theorem material_index_zero_witness:
  "CurveKey 2 0 0 \<in> set (snd (collect_curves example_env
      (example_arguments None None example_instances) ([], [])))
   \<and> material_index (CurveKey 2 0 0) = 0"
proof -
  have mem: "CurveKey 2 0 0 \<in> set (snd (collect_curves example_env
      (example_arguments None None example_instances) ([], [])))"
    by (simp add: collect_curves_eq example_env_def example_arguments_def
        example_instances_def instance_curves_def instance_keys_def enumerate_eq_zip upt_rec)
  from material_index_zero [OF mem] mem show ?thesis by simp
qed

subsection \<open>The constructor\<close>

text \<open>
  Claim C3. With the parameter store of section 6, a configuration whose algorithm is
  any string but \<open>bvh\<close> makes the construction raise a ConfigurationError to its caller:
  the constructor's own \<open>ExceptionNotImplemented\<close> for the recognised, unimplemented
  \<open>sbvh\<close>, which the store returns to it, and the validator's exception for every other
  string. The node, curve and key arrays are still empty at that point, and the
  factory returns the error and no tree, so that no other algorithm has run in place
  of the selected one.
\<close>

theorem unsupported_algorithm_fails:
  assumes "get_optional E = ParamArray_get_optional"
    and "get_parameters (m_assembly arguments) ''acceleration_structure'' ''algorithm''
           = Some algorithm"
    and "algorithm \<noteq> ''bvh''"
  shows "CurveTree_CurveTree E arguments =
           (\<lparr>m_nodes = [], m_curves3 = [], m_curve_keys = []\<rparr>,
            Some (if algorithm = ''sbvh'' then ExceptionNotImplemented
                  else ExceptionInvalidChoice))
         \<and> CurveTreeFactory_create E arguments =
             Inl (if algorithm = ''sbvh'' then ExceptionNotImplemented
                  else ExceptionInvalidChoice)
         \<and> is_ConfigurationError (if algorithm = ''sbvh'' then ExceptionNotImplemented
                  else ExceptionInvalidChoice)"
proof (cases "algorithm = ''sbvh''")
  case True
  have "get_optional E (get_parameters (m_assembly arguments) ''acceleration_structure'')
          ''algorithm'' ''bvh'' [''bvh'', ''sbvh''] = Inr algorithm"
    using assms(2) True by (simp add: assms(1) ParamArray_get_optional_def)
  from ctor_throws [OF this assms(3)] True show ?thesis
    by (simp add: CurveTreeFactory_create_def is_ConfigurationError_def)
next
  case False
  have "get_optional E (get_parameters (m_assembly arguments) ''acceleration_structure'')
          ''algorithm'' ''bvh'' [''bvh'', ''sbvh''] = Inl ExceptionInvalidChoice"
    using assms(2,3) False by (simp add: assms(1) ParamArray_get_optional_def)
  from ctor_read_throws [OF this] False show ?thesis
    by (simp add: CurveTreeFactory_create_def is_ConfigurationError_def)
qed

theorem unsupported_algorithm_fails_witness:
  "get_optional example_env = ParamArray_get_optional
   \<and> CurveTree_CurveTree example_env
        (example_arguments (Some ''sbvh'') None example_instances) =
     (\<lparr>m_nodes = [], m_curves3 = [], m_curve_keys = []\<rparr>, Some ExceptionNotImplemented)
   \<and> CurveTreeFactory_create example_env
        (example_arguments (Some ''sbvh'') None example_instances) = Inl ExceptionNotImplemented
   \<and> CurveTree_CurveTree example_env
        (example_arguments (Some ''octree'') None example_instances) =
     (\<lparr>m_nodes = [], m_curves3 = [], m_curve_keys = []\<rparr>, Some ExceptionInvalidChoice)
   \<and> CurveTreeFactory_create example_env
        (example_arguments (Some ''octree'') None example_instances) = Inl ExceptionInvalidChoice"
proof -
  have store: "get_optional example_env = ParamArray_get_optional"
    by (simp add: example_env_def)
  show ?thesis
    using unsupported_algorithm_fails [OF store,
        of "example_arguments (Some ''sbvh'') None example_instances" "''sbvh''"]
      unsupported_algorithm_fails [OF store,
        of "example_arguments (Some ''octree'') None example_instances" "''octree''"]
      store
    by (simp add: example_arguments_def)
qed

text \<open>
  Claim C10. The value of the parameter \<open>time\<close> has no effect on the constructed tree:
  \<open>build_bvh\<close> returns the same for every value of its argument \<open>time\<close>, and two
  constructions whose arguments hold the same object instances and select the same
  algorithm end with the same node, curve and key arrays (and the same outcome),
  whatever the two reads of \<open>time\<close> return.
\<close>

theorem time_has_no_effect:
  assumes "object_instances (m_assembly a1) = object_instances (m_assembly a2)"
    and "get_optional E (get_parameters (m_assembly a1) ''acceleration_structure'')
           ''algorithm'' ''bvh'' [''bvh'', ''sbvh'']
         = get_optional E (get_parameters (m_assembly a2) ''acceleration_structure'')
           ''algorithm'' ''bvh'' [''bvh'', ''sbvh'']"
  shows "CurveTree_CurveTree E a1 = CurveTree_CurveTree E a2
       \<and> build_bvh E a1 params time1 this = build_bvh E a1 params time2 this"
proof -
  have bvh: "build_bvh E a1 p1 t1 this' = build_bvh E a2 p2 t2 this'" for p1 p2 t1 t2 this'
    by (rule build_bvh_cong [OF assms(1)])
  have "CurveTree_CurveTree E a1 = CurveTree_CurveTree E a2"
    unfolding CurveTree_CurveTree_def Let_def assms(2)
      bvh [of "get_parameters (m_assembly a1) ''acceleration_structure''" _
           _ "get_parameters (m_assembly a2) ''acceleration_structure''"
           "get_optional_double E
              (get_parameters (m_assembly a2) ''acceleration_structure'') ''time'' (1 / 2)"]
    by (rule refl)
  moreover have "build_bvh E a1 params time1 this = build_bvh E a1 params time2 this"
    by (rule build_bvh_cong [OF refl])
  ultimately show ?thesis by simp
qed

theorem time_has_no_effect_witness:
  "CurveTree_CurveTree example_env (example_arguments None (Some ''0.75'') example_instances)
   = CurveTree_CurveTree example_env (example_arguments None None example_instances)
   \<and> get_optional_double example_env
         (get_parameters (m_assembly (example_arguments None (Some ''0.75'') example_instances))
            ''acceleration_structure'') ''time'' (1 / 2) = 3 / 4
   \<and> get_optional_double example_env
         (get_parameters (m_assembly (example_arguments None None example_instances))
            ''acceleration_structure'') ''time'' (1 / 2) = 1 / 2"
  using time_has_no_effect [of "example_arguments None (Some ''0.75'') example_instances"
      "example_arguments None None example_instances" example_env]
  by (simp add: example_arguments_def ParamArray_get_optional_def
      ParamArray_get_optional_double_def example_env_def)

subsection \<open>The reordering\<close>

text \<open>
  Claim C5. The reordering keeps each primitive with its key, whatever item ordering
  the builder returned: after a construction that succeeded, the curve at every
  position \<open>p\<close> is the one collected at index \<open>source_index order p\<close>, and the key at
  position \<open>p\<close> is the key collected at that same index, since \<open>build_bvh\<close> passes the
  one \<open>order\<close> to both calls of \<open>small_item_reorder\<close>. Both arrays keep their length.
\<close>

theorem reorder_keeps_pairs:
  assumes "CurveTree_CurveTree E arguments = (tree, None)"
    and "collect_curves E arguments ([], []) = (curves, curve_keys)"
    and "bvh_of E curves = (nodes, order)"
    and "p < length curves"
  shows "length (m_curves3 tree) = length curves
       \<and> length (m_curve_keys tree) = length curves
       \<and> source_index order p < length curves
       \<and> m_curves3 tree ! p = curves ! source_index order p
       \<and> m_curve_keys tree ! p = curve_keys ! source_index order p"
proof -
  from assms(4) have ne: "curves \<noteq> []" by auto
  have len: "length curve_keys = length curves"
    using assms(2) by (rule length_collect_curves)
  from ctor_success(4) [OF assms(1-3) ne]
  have c: "small_item_reorder curves (length curves) order (length order) = Inr (m_curves3 tree)"
    and k: "small_item_reorder curve_keys (length curve_keys) order (length order)
            = Inr (m_curve_keys tree)"
    by simp_all
  have pk: "p < length curve_keys"
    using assms(4) len by simp
  show ?thesis
    using small_item_reorder_Inr(1) [OF c] small_item_reorder_Inr(1) [OF k]
      small_item_reorder_Inr(2,3) [OF c assms(4)] small_item_reorder_Inr(3) [OF k pk] len
    by simp
qed

theorem reorder_keeps_pairs_witness:
  "source_index [0, 2, 1] 1 = 2
   \<and> m_curves3 (fst (CurveTree_CurveTree example_env
        (example_arguments None None example_instances))) ! 1 = [1, 5, 3] ! 2
   \<and> m_curve_keys (fst (CurveTree_CurveTree example_env
        (example_arguments None None example_instances))) ! 1
     = [CurveKey 0 0 0, CurveKey 0 1 0, CurveKey 2 0 0] ! 2"
  using reorder_keeps_pairs [OF example_tree example_collect example_bvh, of 1]
  by (simp add: example_tree source_index_def)

subsection \<open>The tree built by the SAH builder\<close>

text \<open>
  The claims of this part are about what \<^verbatim>\<open>bvh::Builder\<close> and \<^verbatim>\<open>bvh::SAHPartitioner\<close>
  produce; they are stated for the constructor run with the builder modelled above
  (\<open>bvh_build E = Builder_build\<close>). That two runs over the same boxes give the same
  tree is not among them: builder and partitioner are functions of their arguments
  here, so it would hold of any builder whatever.
\<close>

text \<open>
  Claim C1. After a build that completed, the index ranges of the leaves partition
  \<open>[0, N)\<close>, \<open>N\<close> the number of primitives of the tree: read in the order of the node
  array they are \<open>0, 1, ..., N - 1\<close> without a gap or a repetition, and every index
  below \<open>N\<close> lies in the range of exactly one leaf.
\<close>

theorem leaf_ranges_partition:
  assumes "bvh_build E = Builder_build"
    and "CurveTree_CurveTree E arguments = (tree, None)"
    and "i < length (m_curves3 tree)"
  shows "concat (map leaf_range (m_nodes tree)) = [0..<length (m_curves3 tree)]
       \<and> (\<exists>!k. k < length (m_nodes tree) \<and> i \<in> set (leaf_range (m_nodes tree ! k)))"
proof -
  obtain curves curve_keys where col: "collect_curves E arguments ([], []) = (curves, curve_keys)"
    by (cases "collect_curves E arguments ([], [])")
  obtain nodes order where bvh: "bvh_of E curves = (nodes, order)"
    by (cases "bvh_of E curves")
  have nodes: "m_nodes tree = nodes"
    using assms(2) col bvh by (rule ctor_success(1))
  have len: "length (m_curves3 tree) = length curves"
  proof (cases "curves = []")
    case True
    then show ?thesis using ctor_success(3) [OF assms(2) col bvh] by simp
  next
    case False
    then show ?thesis
      using ctor_success(4) [OF assms(2) col bvh] small_item_reorder_Inr(1) by blast
  qed
  have ranges: "concat (map leaf_range nodes) = [0..<length curves]"
    using subdivide_leaf_ranges [OF bvh [unfolded bvh_of_Builder [OF assms(1)]]] by simp
  have "\<exists>!k. k < length (map leaf_range nodes) \<and> i \<in> set (map leaf_range nodes ! k)"
    using ranges assms(3) len by (intro concat_upt_unique [of _ "length curves"]) simp_all
  then have "\<exists>!k. k < length nodes \<and> i \<in> set (leaf_range (nodes ! k))"
    by (auto cong: conj_cong)
  then show ?thesis
    using ranges nodes len by simp
qed

theorem leaf_ranges_partition_witness:
  "bvh_build example_env = Builder_build
   \<and> concat (map leaf_range (m_nodes (fst (CurveTree_CurveTree example_env
         (example_arguments None None example_instances))))) = [0, 1, 2]
   \<and> length (m_nodes (fst (CurveTree_CurveTree example_env
         (example_arguments None None example_instances)))) = 5
   \<and> (\<exists>!k. k < length (m_nodes (fst (CurveTree_CurveTree example_env
                (example_arguments None None example_instances))))
           \<and> 1 \<in> set (leaf_range (m_nodes (fst (CurveTree_CurveTree example_env
                (example_arguments None None example_instances))) ! k)))"
proof -
  have sah: "bvh_build example_env = Builder_build"
    by (simp add: example_env_def)
  show ?thesis
    using leaf_ranges_partition [OF sah example_tree, of 1] sah
    by (simp add: example_tree upt_rec)
qed

text \<open>
  Claim C2. The box of every interior node of the built tree is the union of the boxes
  of its two children, which both stand in the node array: its min corner is the
  componentwise minimum of their min corners, its max corner the componentwise maximum
  of their max corners.
\<close>

theorem interior_bbox_is_union:
  assumes "bvh_build E = Builder_build"
    and "CurveTree_CurveTree E arguments = (tree, None)"
    and "k < length (m_nodes tree)"
    and "m_nodes tree ! k = Interior l r bbox"
  shows "l < length (m_nodes tree) \<and> r < length (m_nodes tree)
       \<and> (\<exists>x y. node_bbox (m_nodes tree ! l) = Some x \<and> node_bbox (m_nodes tree ! r) = Some y
              \<and> bbox = Some \<lparr>aabb_min = vmin (aabb_min x) (aabb_min y),
                              aabb_max = vmax (aabb_max x) (aabb_max y)\<rparr>)"
proof -
  obtain curves curve_keys where col: "collect_curves E arguments ([], []) = (curves, curve_keys)"
    by (cases "collect_curves E arguments ([], [])")
  have "\<forall>n\<in>set (m_nodes tree). children_ok 0 (m_nodes tree) n"
    using sah_tree [OF assms(1,2) col]
    by (rule subdivide_children) (simp add: partitioner_of_def)
  then have "children_ok 0 (m_nodes tree) (m_nodes tree ! k)"
    using assms(3) by simp
  then show ?thesis
    by (simp add: assms(4) aabb_union_def)
qed

theorem interior_bbox_is_union_witness:
  "bvh_build example_env = Builder_build
   \<and> m_nodes (fst (CurveTree_CurveTree example_env
        (example_arguments None None example_instances))) ! 0
     = Interior 1 2 (Some \<lparr>aabb_min = (1, 0, 0), aabb_max = (6, 1, 1)\<rparr>)
   \<and> node_bbox (m_nodes (fst (CurveTree_CurveTree example_env
        (example_arguments None None example_instances))) ! 1)
     = Some \<lparr>aabb_min = (1, 0, 0), aabb_max = (2, 1, 1)\<rparr>
   \<and> node_bbox (m_nodes (fst (CurveTree_CurveTree example_env
        (example_arguments None None example_instances))) ! 2)
     = Some \<lparr>aabb_min = (3, 0, 0), aabb_max = (6, 1, 1)\<rparr>
   \<and> vmin (1, 0, 0) (3, 0, 0) = (1, 0, 0) \<and> vmax (2, 1, 1) (6, 1, 1) = (6, 1, 1)"
  using interior_bbox_is_union [OF example_sah example_tree, of 0 1 2
      "Some \<lparr>aabb_min = (1, 0, 0), aabb_max = (6, 1, 1)\<rparr>"] example_sah
  by (simp add: example_tree vmin_def vmax_def)

text \<open>
  Claim C8. For an assembly that yields no curve, under a configuration that selects
  \<open>bvh\<close>, the construction succeeds, and the node array it leaves is the single leaf
  over the empty range \<open>[0, 0)\<close>, with the box of nothing.
\<close>

theorem empty_input_single_leaf:
  assumes "bvh_build E = Builder_build"
    and "get_optional E (get_parameters (m_assembly arguments) ''acceleration_structure'')
           ''algorithm'' ''bvh'' [''bvh'', ''sbvh''] = Inr ''bvh''"
    and "fst (collect_curves E arguments ([], [])) = []"
  shows "CurveTree_CurveTree E arguments =
           (\<lparr>m_nodes = [Leaf 0 0 None], m_curves3 = [], m_curve_keys = []\<rparr>, None)
       \<and> CurveTreeFactory_create E arguments =
           Inr \<lparr>m_nodes = [Leaf 0 0 None], m_curves3 = [], m_curve_keys = []\<rparr>"
proof -
  obtain curve_keys where col: "collect_curves E arguments ([], []) = ([], curve_keys)"
    using assms(3) by (cases "collect_curves E arguments ([], [])") simp
  have keys: "curve_keys = []"
    using length_collect_curves [OF col] by simp
  have bvh: "bvh_of E [] = ([Leaf 0 0 None], [])"
    using bvh_of_Builder [OF assms(1), of "[]"] by (simp add: Builder_build_empty)
  have "CurveTree_CurveTree E arguments =
           (\<lparr>m_nodes = [Leaf 0 0 None], m_curves3 = [], m_curve_keys = []\<rparr>, None)"
    using sah_ctor [OF assms(1,2) col bvh] by simp
  then show ?thesis
    by (simp add: CurveTreeFactory_create_def)
qed

theorem empty_input_single_leaf_witness:
  "CurveTree_CurveTree example_env (example_arguments None None []) =
           (\<lparr>m_nodes = [Leaf 0 0 None], m_curves3 = [], m_curve_keys = []\<rparr>, None)
   \<and> CurveTree_CurveTree example_env (example_arguments (Some ''bvh'') None mesh_instances) =
           (\<lparr>m_nodes = [Leaf 0 0 None], m_curves3 = [], m_curve_keys = []\<rparr>, None)"
  using empty_input_single_leaf [OF example_sah, of "example_arguments None None []"]
    empty_input_single_leaf [OF example_sah,
      of "example_arguments (Some ''bvh'') None mesh_instances"]
  by (simp add: collect_curves_eq example_arguments_def ParamArray_get_optional_def
      mesh_instances_def instance_curves_def example_env_def)




end
